theory Spec2Isabelle
  imports Complex_Main
begin

section \<open>Data model\<close>

text \<open>
  The diagram state of \<^verbatim>\<open>js-lib/state.js\<close>, the view transforms of the \<^verbatim>\<open>View\<close> class
  and the draw tools of \<^verbatim>\<open>js-lib/draw\<close>. JavaScript numbers that index the grid are
  modelled as \<open>int\<close>; numbers of the view (pixels, zoom) are modelled as \<open>rat\<close>, that is,
  the arithmetic is read over the rationals and the rounding of IEEE doubles is not
  modelled. A value of JSDoc type \<^verbatim>\<open>?string\<close> is a \<open>string option\<close>, \<open>None\<close> being
  \<^verbatim>\<open>null\<close>.
\<close>

datatype error = TypeError

text \<open>
  Modelled from the spec: the class \<^verbatim>\<open>Vector\<close> (\<^verbatim>\<open>vector.js\<close>) is missing; the spec calls it
  an immutable 2D vector with addition and subtraction.
\<close>

datatype 'a Vector = Vector (vx: 'a) (vy: 'a)

definition Vector_add :: "'a::plus Vector \<Rightarrow> 'a Vector \<Rightarrow> 'a Vector" where
  "Vector_add a b = Vector (vx a + vx b) (vy a + vy b)"

text \<open>
  Modelled from the spec: the class \<^verbatim>\<open>Cell\<close> is missing. The spec gives it a committed value
  (the field \<^verbatim>\<open>value\<close> that \<^verbatim>\<open>state.js\<close> assigns, here \<open>cell_value\<close>), a scratch value and
  a structural flag, all empty in a new cell, with \<open>isSpecial() = special\<close>,
  \<open>hasScratch() = scratchValue != null\<close> and \<open>getRawValue() = scratchValue ?? rawValue\<close>.
\<close>

record Cell =
  cell_value :: "string option"
  scratchValue :: "string option"
  special :: bool

definition Cell_new :: Cell where
  "Cell_new = \<lparr>cell_value = None, scratchValue = None, special = False\<rparr>"

definition isSpecial :: "Cell \<Rightarrow> bool" where
  "isSpecial c = special c"

definition hasScratch :: "Cell \<Rightarrow> bool" where
  "hasScratch c = (scratchValue c \<noteq> None)"

definition getRawValue :: "Cell \<Rightarrow> string option" where
  "getRawValue c = (case scratchValue c of Some v \<Rightarrow> Some v | None \<Rightarrow> cell_value c)"

text \<open>
  Modelled from the spec: the class \<^verbatim>\<open>CellContext\<close> is missing; the spec gives it the four
  booleans \<open>{left, right, up, down}\<close>, in the order of the constructor call in
  \<^verbatim>\<open>getContext\<close>.
\<close>

record CellContext =
  left :: bool
  right :: bool
  up :: bool
  down :: bool

text \<open>
  The constants of \<^verbatim>\<open>constants.js\<close> are missing from the sources, so every function that
  reads one takes them as a parameter.
\<close>

record constants =
  MAX_GRID_SIZE :: int
  SPECIAL_VALUE :: string
  SPECIAL_LINE_H :: string
  SPECIAL_LINE_V :: string
  CHAR_PIXELS_H :: rat
  CHAR_PIXELS_V :: rat
  MAX_GRID_WIDTH :: int
  MAX_GRID_HEIGHT :: int

text \<open>
  \<^verbatim>\<open>ascii.State\<close>. The constructor allocates one \<^verbatim>\<open>Cell\<close> object per index pair and no code
  ever replaces an entry of \<^verbatim>\<open>cells\<close>, so the index pair is the identity of the cell
  object: \<open>cells\<close> is the store from identities to cell contents, undefined outside the
  grid, and \<open>scratchCells\<close> is the array of references that \<^verbatim>\<open>drawValue\<close> pushes.
  The constructor is modelled for a grid size that \<^verbatim>\<open>new Array\<close> accepts, that is, a
  non-negative \<open>MAX_GRID_SIZE\<close>.
\<close>

record State =
  cells :: "int Vector \<rightharpoonup> Cell"
  scratchCells :: "int Vector list"

definition State_new :: "constants \<Rightarrow> State" where
  "State_new k =
     \<lparr>cells = (\<lambda>v. if 0 \<le> vx v \<and> vx v < MAX_GRID_SIZE k \<and> 0 \<le> vy v \<and> vy v < MAX_GRID_SIZE k
                   then Some Cell_new else None),
      scratchCells = []\<rparr>"

section \<open>The operations of \<^verbatim>\<open>state.js\<close>\<close>

text \<open>
  \<^verbatim>\<open>getCell\<close> is \<^verbatim>\<open>this.cells[vector.x][vector.y]\<close>. Outside the grid this throws a
  \<^verbatim>\<open>TypeError\<close> (first index) or yields \<^verbatim>\<open>undefined\<close> (second index), and every caller
  dereferences the result at once, which throws the same error; the model returns the
  error in both cases. An operation that throws ends the run: the model does not follow
  the program past an uncaught exception.
\<close>

definition getCell :: "State \<Rightarrow> int Vector \<Rightarrow> error + Cell" where
  "getCell s vector = (case cells s vector of None \<Rightarrow> Inl TypeError | Some c \<Rightarrow> Inr c)"

definition setValue :: "State \<Rightarrow> int Vector \<Rightarrow> string option \<Rightarrow> error + State" where
  "setValue s position v =
     (case getCell s position of
        Inl e \<Rightarrow> Inl e
      | Inr cell \<Rightarrow> Inr (s\<lparr>cells := (cells s)(position \<mapsto> cell\<lparr>cell_value := v\<rparr>)\<rparr>))"

definition drawValue :: "State \<Rightarrow> int Vector \<Rightarrow> string option \<Rightarrow> error + State" where
  "drawValue s position v =
     (case getCell s position of
        Inl e \<Rightarrow> Inl e
      | Inr cell \<Rightarrow>
          Inr (s\<lparr>scratchCells := scratchCells s @ [position],
                 cells := (cells s)(position \<mapsto> cell\<lparr>scratchValue := v\<rparr>)\<rparr>))"

text \<open>
  The loop of \<^verbatim>\<open>clearDraw\<close> over the references in \<^verbatim>\<open>scratchCells\<close>; \<^verbatim>\<open>for (var i in ...)\<close>
  visits the indices of the array in ascending order. A reference that is no cell (an
  \<^verbatim>\<open>undefined\<close> entry) makes the assignment throw.
\<close>

fun clearCells :: "(int Vector \<rightharpoonup> Cell) \<Rightarrow> int Vector list \<Rightarrow> error + (int Vector \<rightharpoonup> Cell)" where
  "clearCells m [] = Inr m"
| "clearCells m (r # rs) =
     (case m r of
        None \<Rightarrow> Inl TypeError
      | Some c \<Rightarrow> clearCells (m(r \<mapsto> c\<lparr>scratchValue := None\<rparr>)) rs)"

definition clearDraw :: "State \<Rightarrow> error + State" where
  "clearDraw s =
     (case clearCells (cells s) (scratchCells s) of
        Inl e \<Rightarrow> Inl e
      | Inr m \<Rightarrow> Inr (s\<lparr>cells := m, scratchCells := []\<rparr>))"

definition getContext :: "State \<Rightarrow> int Vector \<Rightarrow> error + CellContext" where
  "getContext s position =
     (case getCell s (Vector_add position (Vector (- 1) 0)) of Inl e \<Rightarrow> Inl e | Inr cl \<Rightarrow>
      case getCell s (Vector_add position (Vector 1 0)) of Inl e \<Rightarrow> Inl e | Inr cr \<Rightarrow>
      case getCell s (Vector_add position (Vector 0 (- 1))) of Inl e \<Rightarrow> Inl e | Inr cu \<Rightarrow>
      case getCell s (Vector_add position (Vector 0 1)) of Inl e \<Rightarrow> Inl e | Inr cd \<Rightarrow>
        Inr \<lparr>left = isSpecial cl, right = isSpecial cr, up = isSpecial cu, down = isSpecial cd\<rparr>)"

definition getDrawValue :: "constants \<Rightarrow> State \<Rightarrow> int Vector \<Rightarrow> error + string option" where
  "getDrawValue k s position =
     (case getCell s position of
        Inl e \<Rightarrow> Inl e
      | Inr cell \<Rightarrow>
          let v = (case scratchValue cell of Some sv \<Rightarrow> Some sv | None \<Rightarrow> cell_value cell) in
          if v \<noteq> Some (SPECIAL_VALUE k) then Inr v
          else
            (case getContext s position of
               Inl e \<Rightarrow> Inl e
             | Inr context \<Rightarrow>
                 if left context \<and> right context \<and> \<not> up context \<and> \<not> down context
                 then Inr (Some (SPECIAL_LINE_H k))
                 else if \<not> left context \<and> \<not> right context \<and> up context \<and> down context
                 then Inr (Some (SPECIAL_LINE_V k))
                 else if left context \<and> right context \<and> up context \<and> down context
                 then Inr (Some (SPECIAL_LINE_H k))
                 else Inr (Some (SPECIAL_VALUE k))))"

text \<open>
  The loop of \<^verbatim>\<open>commitDraw\<close>. The function ends after the loop: unlike \<^verbatim>\<open>clearDraw\<close> it
  does not reset \<^verbatim>\<open>scratchCells.length\<close>.
\<close>

fun commitCells :: "(int Vector \<rightharpoonup> Cell) \<Rightarrow> int Vector list \<Rightarrow> error + (int Vector \<rightharpoonup> Cell)" where
  "commitCells m [] = Inr m"
| "commitCells m (r # rs) =
     (case m r of
        None \<Rightarrow> Inl TypeError
      | Some c \<Rightarrow>
          let newValue = getRawValue c;
              newValue = (if newValue = Some '' '' then None else newValue)
          in commitCells (m(r \<mapsto> c\<lparr>scratchValue := None, cell_value := newValue\<rparr>)) rs)"

definition commitDraw :: "State \<Rightarrow> error + State" where
  "commitDraw s =
     (case commitCells (cells s) (scratchCells s) of
        Inl e \<Rightarrow> Inl e
      | Inr m \<Rightarrow> Inr (s\<lparr>cells := m\<rparr>))"

section \<open>The coordinate transforms of \<^verbatim>\<open>View\<close>\<close>

text \<open>
  The fields of \<^verbatim>\<open>View\<close> that the transforms read; \<open>canvas_width\<close> and \<open>canvas_height\<close>
  are \<^verbatim>\<open>this.canvas.width\<close> and \<^verbatim>\<open>this.canvas.height\<close>. A division by zero gives an
  infinity or NaN in JavaScript, which \<open>rat\<close> does not have (\<open>x / 0 = 0\<close> there), so a
  transform that would divide by zero returns \<open>None\<close> instead.
\<close>

record View =
  zoom :: rat
  offset :: "rat Vector"
  canvas_width :: rat
  canvas_height :: rat

definition screenToFrame :: "View \<Rightarrow> rat Vector \<Rightarrow> rat Vector option" where
  "screenToFrame w vector =
     (if zoom w = 0 then None
      else Some (Vector
        ((vx vector - canvas_width w / 2) / zoom w + vx (offset w))
        ((vy vector - canvas_height w / 2) / zoom w + vy (offset w))))"

definition frameToScreen :: "View \<Rightarrow> rat Vector \<Rightarrow> rat Vector" where
  "frameToScreen w vector =
     Vector
       ((vx vector - vx (offset w)) * zoom w + canvas_width w / 2)
       ((vy vector - vy (offset w)) * zoom w + canvas_height w / 2)"

text \<open>
  \<^verbatim>\<open>Math.round\<close> rounds to the nearest integer, a half towards plus infinity, which is
  \<^term>\<open>round\<close> of HOL (\<open>round x = \<lfloor>x + 1 / 2\<rfloor>\<close>).
\<close>

definition frameToCell :: "constants \<Rightarrow> rat Vector \<Rightarrow> int Vector option" where
  "frameToCell k vector =
     (if CHAR_PIXELS_H k = 0 \<or> CHAR_PIXELS_V k = 0 then None
      else Some (Vector
        (min (max 1
           (round ((vx vector - CHAR_PIXELS_H k / 2) / CHAR_PIXELS_H k)))
         (MAX_GRID_WIDTH k - 2))
        (min (max 1
           (round ((vy vector + CHAR_PIXELS_V k / 2) / CHAR_PIXELS_V k)))
         (MAX_GRID_HEIGHT k - 2))))"

definition cellToFrame :: "constants \<Rightarrow> int Vector \<Rightarrow> rat Vector" where
  "cellToFrame k vector =
     Vector
       (of_int (round (of_int (vx vector) * CHAR_PIXELS_H k)))
       (of_int (round (of_int (vy vector) * CHAR_PIXELS_V k)))"

definition screenToCell :: "constants \<Rightarrow> View \<Rightarrow> rat Vector \<Rightarrow> int Vector option" where
  "screenToCell k w vector =
     (case screenToFrame w vector of None \<Rightarrow> None | Some q \<Rightarrow> frameToCell k q)"

definition cellToScreen :: "constants \<Rightarrow> View \<Rightarrow> int Vector \<Rightarrow> rat Vector" where
  "cellToScreen k w vector = frameToScreen w (cellToFrame k vector)"

section \<open>The draw tools\<close>

text \<open>
  A tool keeps a reference to the shared \<^verbatim>\<open>State\<close>; the model passes the state to each
  method and returns it. \<^verbatim>\<open>DrawFreeform\<close> has the field \<^verbatim>\<open>value\<close> (here \<open>tool_value\<close>),
  \<^verbatim>\<open>DrawBox\<close> the field \<^verbatim>\<open>startPosition\<close>, \<^verbatim>\<open>null\<close> until \<^verbatim>\<open>start\<close> is called.
\<close>

record DrawFreeform =
  tool_value :: "string option"

definition DrawFreeform_start :: "DrawFreeform \<Rightarrow> State \<Rightarrow> int Vector \<Rightarrow> error + State" where
  "DrawFreeform_start t s position = drawValue s position (tool_value t)"

definition DrawFreeform_move :: "DrawFreeform \<Rightarrow> State \<Rightarrow> int Vector \<Rightarrow> error + State" where
  "DrawFreeform_move t s position = drawValue s position (tool_value t)"

definition DrawFreeform_end :: "DrawFreeform \<Rightarrow> State \<Rightarrow> error + State" where
  "DrawFreeform_end t s = commitDraw s"

record DrawBox =
  startPosition :: "int Vector option"

definition DrawBox_new :: DrawBox where
  "DrawBox_new = \<lparr>startPosition = None\<rparr>"

definition DrawBox_start :: "DrawBox \<Rightarrow> int Vector \<Rightarrow> DrawBox" where
  "DrawBox_start t position = t\<lparr>startPosition := Some position\<rparr>"

text \<open>
  \<^verbatim>\<open>drawLine\<close> of \<^verbatim>\<open>draw/utils.js\<close> is missing from the sources; \<^verbatim>\<open>move\<close> takes it as a
  parameter.
\<close>

definition DrawBox_move ::
  "(State \<Rightarrow> int Vector option \<Rightarrow> int Vector \<Rightarrow> bool \<Rightarrow> error + State) \<Rightarrow>
   DrawBox \<Rightarrow> State \<Rightarrow> int Vector \<Rightarrow> error + State" where
  "DrawBox_move drawLine t s position =
     (case clearDraw s of Inl e \<Rightarrow> Inl e | Inr s1 \<Rightarrow>
      case drawLine s1 (startPosition t) position True of Inl e \<Rightarrow> Inl e | Inr s2 \<Rightarrow>
        drawLine s2 (startPosition t) position False)"

definition DrawBox_end :: "DrawBox \<Rightarrow> State \<Rightarrow> error + State" where
  "DrawBox_end t s = commitDraw s"

section \<open>Sequences of calls\<close>

text \<open>A finite sequence of \<^verbatim>\<open>drawValue\<close> calls, stopping at the first exception.\<close>

fun drawValues :: "State \<Rightarrow> (int Vector \<times> string option) list \<Rightarrow> error + State" where
  "drawValues s [] = Inr s"
| "drawValues s ((position, v) # ops) =
     (case drawValue s position v of Inl e \<Rightarrow> Inl e | Inr s' \<Rightarrow> drawValues s' ops)"

text \<open>
  The value of the last call in the sequence that wrote to coordinate \<open>c\<close>: \<open>None\<close> when
  no call touched \<open>c\<close>, \<open>Some None\<close> when the last one wrote \<^verbatim>\<open>null\<close>.
\<close>

fun lastWritten :: "(int Vector \<times> string option) list \<Rightarrow> int Vector \<Rightarrow> string option option" where
  "lastWritten [] c = None"
| "lastWritten ((position, v) # ops) c =
     (case lastWritten ops c of
        Some w \<Rightarrow> Some w
      | None \<Rightarrow> if position = c then Some v else None)"

text \<open>Running a second call when the first one did not throw.\<close>

definition then_do :: "error + 'a \<Rightarrow> ('a \<Rightarrow> error + 'b) \<Rightarrow> error + 'b" where
  "then_do r f = (case r of Inl e \<Rightarrow> Inl e | Inr a \<Rightarrow> f a)"

section \<open>Notions used in the statements and proofs\<close>

text \<open>What one iteration of the loop of \<^verbatim>\<open>commitDraw\<close> and of \<^verbatim>\<open>clearDraw\<close> does to a cell.\<close>

definition committed :: "Cell \<Rightarrow> Cell" where
  "committed c = c\<lparr>scratchValue := None,
      cell_value := (if getRawValue c = Some '' '' then None else getRawValue c)\<rparr>"

definition cleared :: "Cell \<Rightarrow> Cell" where
  "cleared c = c\<lparr>scratchValue := None\<rparr>"

text \<open>
  Reading a result: the committed value, the scratch value and the draw value at a
  coordinate of the state that a run returned.
\<close>

definition valueAt :: "int Vector \<Rightarrow> error + State \<Rightarrow> error + string option option" where
  "valueAt c r =
     (case r of Inl e \<Rightarrow> Inl e | Inr s \<Rightarrow> Inr (map_option cell_value (cells s c)))"

definition scratchAt :: "int Vector \<Rightarrow> error + State \<Rightarrow> error + string option option" where
  "scratchAt c r =
     (case r of Inl e \<Rightarrow> Inl e | Inr s \<Rightarrow> Inr (map_option scratchValue (cells s c)))"

definition drawValueAt :: "constants \<Rightarrow> int Vector \<Rightarrow> error + State \<Rightarrow> error + string option" where
  "drawValueAt k c r = (case r of Inl e \<Rightarrow> Inl e | Inr s \<Rightarrow> getDrawValue k s c)"

text \<open>
  The scratch invariant: a cell holds a scratch value only while a reference to it is in
  \<^verbatim>\<open>scratchCells\<close>, and every reference in \<^verbatim>\<open>scratchCells\<close> is a cell of the grid.
\<close>

definition scratchInv :: "State \<Rightarrow> bool" where
  "scratchInv s \<longleftrightarrow>
     set (scratchCells s) \<subseteq> dom (cells s) \<and>
     (\<forall>r c. cells s r = Some c \<and> scratchValue c \<noteq> None \<longrightarrow> r \<in> set (scratchCells s))"

text \<open>
  The rule of the specification for \<open>planeToCell\<close>, word for word: divide each axis by the
  per-cell pixel size, round to the nearest integer, clamp to \<open>[1, MAXDIM - 2]\<close>. It is
  compared with \<^const>\<open>frameToCell\<close> below.
\<close>

definition planeToCell_spec :: "constants \<Rightarrow> rat Vector \<Rightarrow> int Vector" where
  "planeToCell_spec k q =
     Vector
       (min (max 1 (round (vx q / CHAR_PIXELS_H k))) (MAX_GRID_WIDTH k - 2))
       (min (max 1 (round (vy q / CHAR_PIXELS_V k))) (MAX_GRID_HEIGHT k - 2))"

text \<open>Sample constants, states, a view and a tool for the concrete instances.\<close>

definition ex_k :: constants where
  "ex_k = \<lparr>MAX_GRID_SIZE = 2000, SPECIAL_VALUE = ''+'', SPECIAL_LINE_H = ''-'',
          SPECIAL_LINE_V = ''|'', CHAR_PIXELS_H = 9, CHAR_PIXELS_V = 17,
          MAX_GRID_WIDTH = 2000, MAX_GRID_HEIGHT = 600\<rparr>"

definition ex_plus :: Cell where
  "ex_plus = \<lparr>cell_value = Some ''+'', scratchValue = None, special = True\<rparr>"

definition ex_hline :: State where
  "ex_hline = (State_new ex_k)\<lparr>cells := (cells (State_new ex_k))
      (Vector 1 2 \<mapsto> ex_plus, Vector 2 2 \<mapsto> ex_plus, Vector 3 2 \<mapsto> ex_plus)\<rparr>"

definition ex_lone :: State where
  "ex_lone = (State_new ex_k)\<lparr>cells := (cells (State_new ex_k))(Vector 2 2 \<mapsto> ex_plus)\<rparr>"

definition ex_x :: State where
  "ex_x = (State_new ex_k)\<lparr>cells := (cells (State_new ex_k))
      (Vector 1 1 \<mapsto> \<lparr>cell_value = Some ''X'', scratchValue = None, special = False\<rparr>)\<rparr>"

definition ex_view :: View where
  "ex_view = \<lparr>zoom = 2, offset = Vector 9000 5100, canvas_width = 800, canvas_height = 600\<rparr>"

definition ex_freeform :: DrawFreeform where
  "ex_freeform = \<lparr>tool_value = Some ''X''\<rparr>"

text \<open>
  \<open>ex_stroke\<close> is \<open>ex_x\<close> after a freeform \<^verbatim>\<open>start\<close> at \<open>(1, 1)\<close> and a \<^verbatim>\<open>move\<close> to
  \<open>(2, 1)\<close>; \<open>ex_done\<close> is that state after \<^verbatim>\<open>end\<close>.
\<close>

definition ex_stroke :: State where
  "ex_stroke = \<lparr>cells = (cells ex_x)
      (Vector 1 1 \<mapsto> \<lparr>cell_value = Some ''X'', scratchValue = Some ''X'', special = False\<rparr>,
       Vector 2 1 \<mapsto> \<lparr>cell_value = None, scratchValue = Some ''X'', special = False\<rparr>),
     scratchCells = [Vector 1 1, Vector 2 1]\<rparr>"

definition ex_done :: State where
  "ex_done = \<lparr>cells = (cells ex_x)
      (Vector 1 1 \<mapsto> \<lparr>cell_value = Some ''X'', scratchValue = None, special = False\<rparr>,
       Vector 2 1 \<mapsto> \<lparr>cell_value = Some ''X'', scratchValue = None, special = False\<rparr>),
     scratchCells = [Vector 1 1, Vector 2 1]\<rparr>"

section \<open>Glyph resolution\<close>

lemma getContext_neighbours:
  assumes "cells s (Vector (vx p - 1) (vy p)) = Some cl"
    and "cells s (Vector (vx p + 1) (vy p)) = Some cr"
    and "cells s (Vector (vx p) (vy p - 1)) = Some cu"
    and "cells s (Vector (vx p) (vy p + 1)) = Some cd"
  shows "getContext s p =
     Inr \<lparr>left = special cl, right = special cr, up = special cu, down = special cd\<rparr>"
  using assms by (simp add: getContext_def getCell_def Vector_add_def isSpecial_def)

text \<open>
  Claim C1. Let the cell at \<open>p\<close> resolve (scratch value if present, else committed value)
  to the special marker, and let its four neighbours lie in the grid. Then
  \<^const>\<open>getDrawValue\<close> is decided by the neighbours' special flags alone: left and right
  special with up and down not special gives the horizontal line glyph; up and down special
  with left and right not special gives the vertical line glyph; all four special gives
  the horizontal line glyph; every other combination gives the fallback glyph.
\<close>

theorem getDrawValue_special_rules:
  assumes "cells s p = Some c"
    and "getRawValue c = Some (SPECIAL_VALUE k)"
    and "cells s (Vector (vx p - 1) (vy p)) = Some cl"
    and "cells s (Vector (vx p + 1) (vy p)) = Some cr"
    and "cells s (Vector (vx p) (vy p - 1)) = Some cu"
    and "cells s (Vector (vx p) (vy p + 1)) = Some cd"
  shows "(special cl \<and> special cr \<and> \<not> special cu \<and> \<not> special cd \<longrightarrow>
            getDrawValue k s p = Inr (Some (SPECIAL_LINE_H k))) \<and>
         (\<not> special cl \<and> \<not> special cr \<and> special cu \<and> special cd \<longrightarrow>
            getDrawValue k s p = Inr (Some (SPECIAL_LINE_V k))) \<and>
         (special cl \<and> special cr \<and> special cu \<and> special cd \<longrightarrow>
            getDrawValue k s p = Inr (Some (SPECIAL_LINE_H k))) \<and>
         (\<not> (special cl \<and> special cr \<and> \<not> special cu \<and> \<not> special cd) \<and>
          \<not> (\<not> special cl \<and> \<not> special cr \<and> special cu \<and> special cd) \<and>
          \<not> (special cl \<and> special cr \<and> special cu \<and> special cd) \<longrightarrow>
            getDrawValue k s p = Inr (Some (SPECIAL_VALUE k)))"
proof -
  have ctx: "getContext s p =
     Inr \<lparr>left = special cl, right = special cr, up = special cu, down = special cd\<rparr>"
    using assms(3-6) by (rule getContext_neighbours)
  have v: "(case scratchValue c of Some sv \<Rightarrow> Some sv | None \<Rightarrow> cell_value c)
             = Some (SPECIAL_VALUE k)"
    using assms(2) by (simp add: getRawValue_def)
  show ?thesis
    by (simp add: getDrawValue_def getCell_def assms(1) v ctx)
qed

text \<open>
  The middle cell of a horizontal run of three special cells: rule one applies and the
  glyph is the horizontal line.
\<close>

theorem getDrawValue_special_rules_witness:
  "getDrawValue ex_k ex_hline (Vector 2 2) = Inr (Some ''-'')"
proof -
  have c: "cells ex_hline (Vector 2 2) = Some ex_plus"
    by (simp add: ex_hline_def)
  have v: "getRawValue ex_plus = Some (SPECIAL_VALUE ex_k)"
    by (simp add: getRawValue_def ex_plus_def ex_k_def)
  have l: "cells ex_hline (Vector (vx (Vector 2 2) - 1) (vy (Vector 2 2))) = Some ex_plus"
    by (simp add: ex_hline_def)
  have r: "cells ex_hline (Vector (vx (Vector 2 2) + 1) (vy (Vector 2 2))) = Some ex_plus"
    by (simp add: ex_hline_def)
  have u: "cells ex_hline (Vector (vx (Vector 2 2)) (vy (Vector 2 2) - 1)) = Some Cell_new"
    by (simp add: ex_hline_def State_new_def ex_k_def)
  have d: "cells ex_hline (Vector (vx (Vector 2 2)) (vy (Vector 2 2) + 1)) = Some Cell_new"
    by (simp add: ex_hline_def State_new_def ex_k_def)
  have sp: "special ex_plus" "\<not> special Cell_new" and h: "SPECIAL_LINE_H ex_k = ''-''"
    by (simp_all add: ex_plus_def Cell_new_def ex_k_def)
  show ?thesis
    using getDrawValue_special_rules [OF c v l r u d]
    by (simp add: sp h)
qed

text \<open>
  Claim C9. When the cell resolves to the special marker and its context matches none of
  the three line rules, \<^const>\<open>getDrawValue\<close> returns the marker itself, the value the cell
  holds: the fallback glyph is no constant of its own.
\<close>

theorem getDrawValue_fallback_is_sentinel:
  assumes "cells s p = Some c"
    and "getRawValue c = Some (SPECIAL_VALUE k)"
    and "getContext s p = Inr context"
    and "\<not> (left context \<and> right context \<and> \<not> up context \<and> \<not> down context)"
    and "\<not> (\<not> left context \<and> \<not> right context \<and> up context \<and> down context)"
    and "\<not> (left context \<and> right context \<and> up context \<and> down context)"
  shows "getDrawValue k s p = Inr (getRawValue c) \<and>
         getDrawValue k s p = Inr (Some (SPECIAL_VALUE k))"
proof -
  have v: "(case scratchValue c of Some sv \<Rightarrow> Some sv | None \<Rightarrow> cell_value c)
             = Some (SPECIAL_VALUE k)"
    using assms(2) by (simp add: getRawValue_def)
  show ?thesis
    using assms(4-6) by (auto simp: getDrawValue_def getCell_def assms(1,2,3) v)
qed

lemma ex_lone_context:
  "getContext ex_lone (Vector 2 2) =
     Inr \<lparr>left = False, right = False, up = False, down = False\<rparr>"
  by (simp add: getContext_def getCell_def Vector_add_def isSpecial_def ex_lone_def
      State_new_def ex_k_def Cell_new_def)

theorem getDrawValue_fallback_is_sentinel_witness:
  "getDrawValue ex_k ex_lone (Vector 2 2) = Inr (Some ''+'')"
proof -
  have c: "cells ex_lone (Vector 2 2) = Some ex_plus"
    by (simp add: ex_lone_def)
  have v: "getRawValue ex_plus = Some (SPECIAL_VALUE ex_k)"
    by (simp add: getRawValue_def ex_plus_def ex_k_def)
  have sv: "SPECIAL_VALUE ex_k = ''+''"
    by (simp add: ex_k_def)
  show ?thesis
    using getDrawValue_fallback_is_sentinel [OF c v ex_lone_context]
    by (simp add: v sv)
qed

lemma getDrawValue_context_throws:
  assumes "cells s p = Some c"
    and "getRawValue c = Some (SPECIAL_VALUE k)"
    and "getContext s p = Inl e"
  shows "getDrawValue k s p = Inl e"
proof -
  have v: "(case scratchValue c of Some sv \<Rightarrow> Some sv | None \<Rightarrow> cell_value c)
             = Some (SPECIAL_VALUE k)"
    using assms(2) by (simp add: getRawValue_def)
  show ?thesis
    by (simp add: getDrawValue_def getCell_def assms(1,3) v)
qed

lemma getCell_cong:
  "cells s' = cells s \<Longrightarrow> getCell s' = getCell s"
  by (simp add: fun_eq_iff getCell_def)

lemma getContext_cong:
  assumes "cells s' = cells s"
  shows "getContext s' p = getContext s p"
  unfolding getContext_def getCell_cong [OF assms] ..

lemma getDrawValue_cong:
  assumes "cells s' = cells s"
  shows "getDrawValue k s' p = getDrawValue k s p"
  unfolding getDrawValue_def getCell_cong [OF assms] getContext_cong [OF assms] ..

section \<open>What the scratch operations compute\<close>

lemma committed_idem: "committed (committed c) = committed c"
  by (simp add: committed_def getRawValue_def)

text \<open>
  The loop of \<^verbatim>\<open>commitDraw\<close> returns exactly when every reference is a cell of the grid,
  and then each referenced cell is committed once, however often it is referenced.
\<close>

lemma commitCells_char:
  "commitCells m rs = Inr m' \<longleftrightarrow>
     set rs \<subseteq> dom m \<and> m' = (\<lambda>r. if r \<in> set rs then map_option committed (m r) else m r)"
proof (induction rs arbitrary: m)
  case Nil
  then show ?case by auto
next
  case (Cons r rs)
  show ?case
  proof (cases "m r")
    case None
    then show ?thesis by auto
  next
    case (Some c)
    let ?m1 = "m(r \<mapsto> committed c)"
    have step: "commitCells m (r # rs) = commitCells ?m1 rs"
      using Some by (simp add: committed_def Let_def)
    have dom1: "set rs \<subseteq> dom ?m1 \<longleftrightarrow> set (r # rs) \<subseteq> dom m"
      using Some by auto
    have eq: "(\<lambda>q. if q \<in> set rs then map_option committed (?m1 q) else ?m1 q)
            = (\<lambda>q. if q \<in> set (r # rs) then map_option committed (m q) else m q)"
      using Some by (auto simp: fun_eq_iff committed_idem)
    show ?thesis
      unfolding step Cons.IH dom1 eq ..
  qed
qed

lemma clearCells_char:
  "clearCells m rs = Inr m' \<longleftrightarrow>
     set rs \<subseteq> dom m \<and> m' = (\<lambda>r. if r \<in> set rs then map_option cleared (m r) else m r)"
proof (induction rs arbitrary: m)
  case Nil
  then show ?case by auto
next
  case (Cons r rs)
  show ?case
  proof (cases "m r")
    case None
    then show ?thesis by auto
  next
    case (Some c)
    let ?m1 = "m(r \<mapsto> cleared c)"
    have step: "clearCells m (r # rs) = clearCells ?m1 rs"
      using Some by (simp add: cleared_def)
    have dom1: "set rs \<subseteq> dom ?m1 \<longleftrightarrow> set (r # rs) \<subseteq> dom m"
      using Some by auto
    have eq: "(\<lambda>q. if q \<in> set rs then map_option cleared (?m1 q) else ?m1 q)
            = (\<lambda>q. if q \<in> set (r # rs) then map_option cleared (m q) else m q)"
      using Some by (auto simp: fun_eq_iff cleared_def)
    show ?thesis
      unfolding step Cons.IH dom1 eq ..
  qed
qed

lemma commitDraw_char:
  "commitDraw s = Inr s' \<longleftrightarrow>
     set (scratchCells s) \<subseteq> dom (cells s) \<and>
     s' = s\<lparr>cells := (\<lambda>r. if r \<in> set (scratchCells s)
                            then map_option committed (cells s r) else cells s r)\<rparr>"
proof (cases "commitCells (cells s) (scratchCells s)")
  case (Inl e)
  then have "\<not> set (scratchCells s) \<subseteq> dom (cells s)"
    using commitCells_char [of "cells s" "scratchCells s"] by auto
  with Inl show ?thesis by (simp add: commitDraw_def)
next
  case (Inr m)
  then show ?thesis
    using commitCells_char [of "cells s" "scratchCells s" m] by (auto simp: commitDraw_def)
qed

lemma clearDraw_char:
  "clearDraw s = Inr s' \<longleftrightarrow>
     set (scratchCells s) \<subseteq> dom (cells s) \<and>
     s' = s\<lparr>cells := (\<lambda>r. if r \<in> set (scratchCells s)
                            then map_option cleared (cells s r) else cells s r),
            scratchCells := []\<rparr>"
proof (cases "clearCells (cells s) (scratchCells s)")
  case (Inl e)
  then have "\<not> set (scratchCells s) \<subseteq> dom (cells s)"
    using clearCells_char [of "cells s" "scratchCells s"] by auto
  with Inl show ?thesis by (simp add: clearDraw_def)
next
  case (Inr m)
  then show ?thesis
    using clearCells_char [of "cells s" "scratchCells s" m] by (auto simp: clearDraw_def)
qed

lemma lastWritten_None: "lastWritten ops c = None \<longleftrightarrow> c \<notin> fst ` set ops"
  by (induction ops) (auto split: option.splits)

lemma lastWritten_Some: "c \<in> fst ` set ops \<Longrightarrow> \<exists>w. lastWritten ops c = Some w"
  using lastWritten_None [of ops c] by (cases "lastWritten ops c") auto

text \<open>
  A sequence of \<^verbatim>\<open>drawValue\<close> calls returns exactly when every position is in the grid;
  it appends the positions to \<^verbatim>\<open>scratchCells\<close> and leaves in each touched cell the scratch
  value written last.
\<close>

lemma drawValues_char:
  "drawValues s ops = Inr s' \<longleftrightarrow>
     fst ` set ops \<subseteq> dom (cells s) \<and>
     s' = s\<lparr>scratchCells := scratchCells s @ map fst ops,
            cells := (\<lambda>r. case lastWritten ops r of
                        None \<Rightarrow> cells s r
                      | Some v \<Rightarrow> map_option (\<lambda>c. c\<lparr>scratchValue := v\<rparr>) (cells s r))\<rparr>"
proof (induction ops arbitrary: s)
  case Nil
  then show ?case by auto
next
  case (Cons a ops)
  obtain p v where a: "a = (p, v)" by (cases a)
  show ?case
  proof (cases "cells s p")
    case None
    then show ?thesis by (auto simp: a drawValue_def getCell_def)
  next
    case (Some c)
    let ?s1 = "s\<lparr>scratchCells := scratchCells s @ [p],
                 cells := (cells s)(p \<mapsto> c\<lparr>scratchValue := v\<rparr>)\<rparr>"
    have step: "drawValues s (a # ops) = drawValues ?s1 ops"
      using Some by (simp add: a drawValue_def getCell_def)
    have dom1: "fst ` set ops \<subseteq> dom (cells ?s1) \<longleftrightarrow> fst ` set (a # ops) \<subseteq> dom (cells s)"
      using Some by (auto simp: a)
    have feq: "(\<lambda>r. case lastWritten ops r of
                        None \<Rightarrow> cells ?s1 r
                      | Some v \<Rightarrow> map_option (\<lambda>c. c\<lparr>scratchValue := v\<rparr>) (cells ?s1 r))
          = (\<lambda>r. case lastWritten (a # ops) r of
                        None \<Rightarrow> cells s r
                      | Some v \<Rightarrow> map_option (\<lambda>c. c\<lparr>scratchValue := v\<rparr>) (cells s r))"
      using Some by (auto simp: a fun_eq_iff split: option.splits)
    have eq: "?s1\<lparr>scratchCells := scratchCells ?s1 @ map fst ops,
            cells := (\<lambda>r. case lastWritten ops r of
                        None \<Rightarrow> cells ?s1 r
                      | Some v \<Rightarrow> map_option (\<lambda>c. c\<lparr>scratchValue := v\<rparr>) (cells ?s1 r))\<rparr>
          = s\<lparr>scratchCells := scratchCells s @ map fst (a # ops),
            cells := (\<lambda>r. case lastWritten (a # ops) r of
                        None \<Rightarrow> cells s r
                      | Some v \<Rightarrow> map_option (\<lambda>c. c\<lparr>scratchValue := v\<rparr>) (cells s r))\<rparr>"
      unfolding feq by (simp add: a)
    show ?thesis
      unfolding step Cons.IH dom1 eq ..
  qed
qed

lemma commitDraw_twice:
  assumes "commitDraw s = Inr s1"
  shows "commitDraw s1 = Inr s1"
proof -
  from assms have sub: "set (scratchCells s) \<subseteq> dom (cells s)"
    and s1: "s1 = s\<lparr>cells := (\<lambda>r. if r \<in> set (scratchCells s)
                            then map_option committed (cells s r) else cells s r)\<rparr>"
    by (simp_all add: commitDraw_char)
  have sub1: "set (scratchCells s1) \<subseteq> dom (cells s1)"
    using sub by (auto simp: s1)
  have "(\<lambda>r. if r \<in> set (scratchCells s1)
              then map_option committed (cells s1 r) else cells s1 r) = cells s1"
    by (auto simp: s1 fun_eq_iff committed_idem option.map_comp comp_def)
  then have "s1\<lparr>cells := (\<lambda>r. if r \<in> set (scratchCells s1)
              then map_option committed (cells s1 r) else cells s1 r)\<rparr> = s1"
    by simp
  with sub1 show ?thesis
    by (simp add: commitDraw_char)
qed

section \<open>The scratch invariant\<close>

lemma scratchInv_State_new: "scratchInv (State_new k)"
  by (simp add: scratchInv_def State_new_def Cell_new_def)

lemma scratchInv_drawValue:
  assumes "scratchInv s" and "drawValue s p v = Inr s'"
  shows "scratchInv s'"
proof -
  from assms(2) obtain c0 where c0: "cells s p = Some c0"
    and s': "s' = s\<lparr>scratchCells := scratchCells s @ [p],
                    cells := (cells s)(p \<mapsto> c0\<lparr>scratchValue := v\<rparr>)\<rparr>"
    by (auto simp: drawValue_def getCell_def split: option.splits)
  have "set (scratchCells s') \<subseteq> dom (cells s')"
    using assms(1) c0 by (auto simp: scratchInv_def s')
  moreover have "r \<in> set (scratchCells s')"
    if "cells s' r = Some c" "scratchValue c \<noteq> None" for r c
  proof (cases "r = p")
    case True
    then show ?thesis by (simp add: s')
  next
    case False
    with that have "cells s r = Some c"
      by (simp add: s')
    with that(2) assms(1) have "r \<in> set (scratchCells s)"
      unfolding scratchInv_def by blast
    then show ?thesis by (simp add: s')
  qed
  ultimately show ?thesis
    unfolding scratchInv_def by blast
qed

lemma scratchInv_setValue:
  assumes "scratchInv s" and "setValue s p v = Inr s'"
  shows "scratchInv s'"
proof -
  from assms(2) obtain c0 where c0: "cells s p = Some c0"
    and s': "s' = s\<lparr>cells := (cells s)(p \<mapsto> c0\<lparr>cell_value := v\<rparr>)\<rparr>"
    by (auto simp: setValue_def getCell_def split: option.splits)
  have "set (scratchCells s') \<subseteq> dom (cells s')"
    using assms(1) c0 by (auto simp: scratchInv_def s')
  moreover have "r \<in> set (scratchCells s')"
    if "cells s' r = Some c" "scratchValue c \<noteq> None" for r c
  proof (cases "r = p")
    case True
    with that have "scratchValue c0 \<noteq> None"
      by (auto simp: s')
    with c0 assms(1) have "p \<in> set (scratchCells s)"
      unfolding scratchInv_def by blast
    with True show ?thesis by (simp add: s')
  next
    case False
    with that have "cells s r = Some c"
      by (simp add: s')
    with that(2) assms(1) have "r \<in> set (scratchCells s)"
      unfolding scratchInv_def by blast
    then show ?thesis by (simp add: s')
  qed
  ultimately show ?thesis
    unfolding scratchInv_def by blast
qed

text \<open>
  \<^verbatim>\<open>clearDraw\<close> drains the scratch set and leaves no scratch value in a cell that was a
  member; on a state that satisfies the invariant no scratch value is left at all.
\<close>

lemma clearDraw_drains:
  assumes "clearDraw s = Inr s'"
  shows "scratchCells s' = [] \<and>
     (\<forall>r \<in> set (scratchCells s). \<exists>c. cells s' r = Some c \<and> scratchValue c = None)"
proof -
  from assms have sub: "set (scratchCells s) \<subseteq> dom (cells s)"
    and s': "s' = s\<lparr>cells := (\<lambda>r. if r \<in> set (scratchCells s)
                            then map_option cleared (cells s r) else cells s r),
                      scratchCells := []\<rparr>"
    by (simp_all add: clearDraw_char)
  have "\<exists>c. cells s' r = Some c \<and> scratchValue c = None" if "r \<in> set (scratchCells s)" for r
  proof -
    from that sub have "r \<in> dom (cells s)"
      by blast
    then obtain z where "cells s r = Some z"
      by (auto simp: dom_def)
    with that show ?thesis
      by (simp add: s' cleared_def)
  qed
  then show ?thesis
    by (simp add: s')
qed

lemma scratchInv_clearDraw:
  assumes "scratchInv s" and "clearDraw s = Inr s'"
  shows "scratchInv s'"
proof -
  from assms(2) have s': "s' = s\<lparr>cells := (\<lambda>r. if r \<in> set (scratchCells s)
                            then map_option cleared (cells s r) else cells s r),
                      scratchCells := []\<rparr>"
    by (simp add: clearDraw_char)
  have "scratchValue c = None" if "cells s' r = Some c" for r c
  proof (cases "r \<in> set (scratchCells s)")
    case True
    with that show ?thesis
      by (auto simp: s' cleared_def)
  next
    case False
    with that have "cells s r = Some c"
      by (simp add: s')
    with False assms(1) show ?thesis
      unfolding scratchInv_def by blast
  qed
  then show ?thesis
    unfolding scratchInv_def by (auto simp: s')
qed

text \<open>
  \<^verbatim>\<open>commitDraw\<close> leaves no scratch value in a member cell either, but it returns with
  \<^verbatim>\<open>scratchCells\<close> as it found it.
\<close>

lemma commitDraw_nulls_members:
  assumes "commitDraw s = Inr s'"
  shows "scratchCells s' = scratchCells s \<and>
     (\<forall>r \<in> set (scratchCells s). \<exists>c. cells s' r = Some c \<and> scratchValue c = None)"
proof -
  from assms have sub: "set (scratchCells s) \<subseteq> dom (cells s)"
    and s': "s' = s\<lparr>cells := (\<lambda>r. if r \<in> set (scratchCells s)
                            then map_option committed (cells s r) else cells s r)\<rparr>"
    by (simp_all add: commitDraw_char)
  have "\<exists>c. cells s' r = Some c \<and> scratchValue c = None" if "r \<in> set (scratchCells s)" for r
  proof -
    from that sub have "r \<in> dom (cells s)"
      by blast
    then obtain z where "cells s r = Some z"
      by (auto simp: dom_def)
    with that show ?thesis
      by (simp add: s' committed_def)
  qed
  then show ?thesis
    by (simp add: s')
qed

lemma scratchInv_commitDraw:
  assumes "scratchInv s" and "commitDraw s = Inr s'"
  shows "scratchInv s'"
proof -
  from assms(2) have sub: "set (scratchCells s) \<subseteq> dom (cells s)"
    and s': "s' = s\<lparr>cells := (\<lambda>r. if r \<in> set (scratchCells s)
                            then map_option committed (cells s r) else cells s r)\<rparr>"
    by (simp_all add: commitDraw_char)
  have "set (scratchCells s') \<subseteq> dom (cells s')"
    using sub by (auto simp: s')
  moreover have "r \<in> set (scratchCells s')"
    if "cells s' r = Some c" "scratchValue c \<noteq> None" for r c
  proof (cases "r \<in> set (scratchCells s)")
    case True
    then show ?thesis by (simp add: s')
  next
    case False
    with that have "cells s r = Some c"
      by (simp add: s')
    with that(2) assms(1) False show ?thesis
      unfolding scratchInv_def by blast
  qed
  ultimately show ?thesis
    unfolding scratchInv_def by blast
qed

section \<open>Drawing and committing\<close>

text \<open>
  Claim C2 says that after a sequence of \<^verbatim>\<open>drawValue\<close> calls and one \<^verbatim>\<open>commitDraw\<close> the
  committed value of a touched cell is the last scratch value written to it (a blank
  giving \<^verbatim>\<open>null\<close>). \<^verbatim>\<open>drawValue\<close> accepts \<^verbatim>\<open>null\<close> (\<^verbatim>\<open>?string\<close>), and a cell whose last
  written scratch value is \<^verbatim>\<open>null\<close> has no scratch value to commit. Here the cell
  \<open>(1, 1)\<close> holds \<open>X\<close>, the one call writes \<^verbatim>\<open>null\<close> to it, and after the commit it still
  holds \<open>X\<close>, not the value written last.
\<close>

theorem commitDraw_null_write_counterexample:
  "lastWritten [(Vector 1 1, None)] (Vector 1 1) = Some None \<and>
   valueAt (Vector 1 1) (then_do (drawValues ex_x [(Vector 1 1, None)]) commitDraw)
     = Inr (Some (Some ''X''))"
  by (simp add: valueAt_def then_do_def drawValue_def getCell_def ex_x_def State_new_def
      ex_k_def commitDraw_def getRawValue_def)

text \<open>
  Claim C2, amended. From a state whose scratch references are cells of the grid, a
  finite sequence of \<^verbatim>\<open>drawValue\<close> calls at coordinates of the grid followed by one
  \<^verbatim>\<open>commitDraw\<close> returns, and every touched cell ends without a scratch value. If the
  last value written to it is a string, its committed value is that string, or \<^verbatim>\<open>null\<close>
  when the string is a single blank. If the last value written to it is \<^verbatim>\<open>null\<close>, its
  committed value is the one it had before the sequence, or \<^verbatim>\<open>null\<close> when that was a
  single blank.
\<close>

theorem drawValues_commitDraw_value:
  assumes "set (scratchCells s) \<subseteq> dom (cells s)"
    and "fst ` set ops \<subseteq> dom (cells s)"
  shows "\<exists>s1 s2. drawValues s ops = Inr s1 \<and> commitDraw s1 = Inr s2 \<and>
     (\<forall>c \<in> fst ` set ops. \<exists>c0 c2.
        cells s c = Some c0 \<and> cells s2 c = Some c2 \<and> scratchValue c2 = None \<and>
        (\<forall>v. lastWritten ops c = Some (Some v) \<longrightarrow>
           cell_value c2 = (if v = '' '' then None else Some v)) \<and>
        (lastWritten ops c = Some None \<longrightarrow>
           cell_value c2 = (if cell_value c0 = Some '' '' then None else cell_value c0)))"
proof -
  define s1 where "s1 = s\<lparr>scratchCells := scratchCells s @ map fst ops,
            cells := (\<lambda>r. case lastWritten ops r of
                        None \<Rightarrow> cells s r
                      | Some v \<Rightarrow> map_option (\<lambda>c. c\<lparr>scratchValue := v\<rparr>) (cells s r))\<rparr>"
  define s2 where "s2 = s1\<lparr>cells := (\<lambda>r. if r \<in> set (scratchCells s1)
                            then map_option committed (cells s1 r) else cells s1 r)\<rparr>"
  have d: "drawValues s ops = Inr s1"
    using assms(2) by (simp add: drawValues_char s1_def)
  have sub1: "set (scratchCells s1) \<subseteq> dom (cells s1)"
    using assms by (auto simp: s1_def split: option.splits)
  have c: "commitDraw s1 = Inr s2"
    using sub1 by (simp add: commitDraw_char s2_def)
  have "\<exists>c0 c2.
        cells s c = Some c0 \<and> cells s2 c = Some c2 \<and> scratchValue c2 = None \<and>
        (\<forall>v. lastWritten ops c = Some (Some v) \<longrightarrow>
           cell_value c2 = (if v = '' '' then None else Some v)) \<and>
        (lastWritten ops c = Some None \<longrightarrow>
           cell_value c2 = (if cell_value c0 = Some '' '' then None else cell_value c0))"
    if touched: "c \<in> fst ` set ops" for c
  proof -
    from touched assms(2) have "c \<in> dom (cells s)"
      by blast
    then obtain c0 where c0: "cells s c = Some c0"
      by (auto simp: dom_def)
    obtain w where w: "lastWritten ops c = Some w"
      using lastWritten_Some [OF touched] by blast
    have mem: "c \<in> set (scratchCells s1)"
      using touched by (auto simp: s1_def)
    have "cells s2 c = Some (committed (c0\<lparr>scratchValue := w\<rparr>))"
      using mem by (simp add: s2_def) (simp add: s1_def w c0)
    then show ?thesis
      using c0 w by (cases w) (auto simp: committed_def getRawValue_def)
  qed
  with d c show ?thesis by blast
qed

text \<open>
  Three calls on the state that holds \<open>X\<close> at \<open>(1, 1)\<close>: the blank written last to
  \<open>(1, 1)\<close> erases it, and \<open>(2, 1)\<close> keeps the \<open>b\<close> written to it.
\<close>

theorem drawValues_commitDraw_value_witness:
  "valueAt (Vector 1 1)
     (then_do (drawValues ex_x [(Vector 1 1, Some ''a''), (Vector 2 1, Some ''b''),
        (Vector 1 1, Some '' '')]) commitDraw) = Inr (Some None) \<and>
   valueAt (Vector 2 1)
     (then_do (drawValues ex_x [(Vector 1 1, Some ''a''), (Vector 2 1, Some ''b''),
        (Vector 1 1, Some '' '')]) commitDraw) = Inr (Some (Some ''b''))"
proof -
  have a: "set (scratchCells ex_x) \<subseteq> dom (cells ex_x)"
    by (simp add: ex_x_def State_new_def)
  have b: "fst ` set [(Vector 1 1, Some ''a''), (Vector 2 1, Some ''b''),
            (Vector 1 1, Some '' '')] \<subseteq> dom (cells ex_x)"
    by (simp add: ex_x_def State_new_def ex_k_def dom_def)
  show ?thesis
    using drawValues_commitDraw_value [OF a b]
    by (auto simp: valueAt_def then_do_def)
qed

text \<open>
  Claim C3 says that the scratch set is empty after \<^verbatim>\<open>commitDraw\<close> returns, as it is
  after \<^verbatim>\<open>clearDraw\<close>. On a new grid, after one \<^verbatim>\<open>drawValue\<close> at \<open>(1, 1)\<close> and a
  \<^verbatim>\<open>commitDraw\<close>, \<^verbatim>\<open>scratchCells\<close> still holds the reference to \<open>(1, 1)\<close>. The rest of
  the claim holds: see \<open>clearDraw_drains\<close>, \<open>commitDraw_nulls_members\<close> and the
  preservation of \<^const>\<open>scratchInv\<close>.
\<close>

theorem commitDraw_keeps_scratchCells:
  "map_sum id scratchCells
     (then_do (drawValue (State_new ex_k) (Vector 1 1) (Some ''X'')) commitDraw)
   = Inr [Vector 1 1]"
  by (simp add: then_do_def drawValue_def getCell_def State_new_def ex_k_def
      commitDraw_def getRawValue_def Cell_new_def)

text \<open>
  Claim C4. From a state in which no cell holds a scratch value (and whose scratch
  references are cells of the grid), a finite sequence of \<^verbatim>\<open>drawValue\<close> calls at
  coordinates of the grid followed by \<^verbatim>\<open>clearDraw\<close> returns; \<^const>\<open>getDrawValue\<close> then
  gives at every touched coordinate what it gave before the sequence, and the committed
  value of every cell is unchanged.
\<close>

theorem drawValues_clearDraw_roundtrip:
  assumes "set (scratchCells s) \<subseteq> dom (cells s)"
    and "fst ` set ops \<subseteq> dom (cells s)"
    and "\<forall>r c. cells s r = Some c \<longrightarrow> scratchValue c = None"
  shows "\<exists>s1 s2. drawValues s ops = Inr s1 \<and> clearDraw s1 = Inr s2 \<and>
     (\<forall>c \<in> fst ` set ops. getDrawValue k s2 c = getDrawValue k s c) \<and>
     (\<forall>r. map_option cell_value (cells s2 r) = map_option cell_value (cells s r))"
proof -
  define s1 where "s1 = s\<lparr>scratchCells := scratchCells s @ map fst ops,
            cells := (\<lambda>r. case lastWritten ops r of
                        None \<Rightarrow> cells s r
                      | Some v \<Rightarrow> map_option (\<lambda>c. c\<lparr>scratchValue := v\<rparr>) (cells s r))\<rparr>"
  define s2 where "s2 = s1\<lparr>cells := (\<lambda>r. if r \<in> set (scratchCells s1)
                            then map_option cleared (cells s1 r) else cells s1 r),
                           scratchCells := []\<rparr>"
  have d: "drawValues s ops = Inr s1"
    using assms(2) by (simp add: drawValues_char s1_def)
  have sub1: "set (scratchCells s1) \<subseteq> dom (cells s1)"
    using assms(1,2) by (auto simp: s1_def split: option.splits)
  have c: "clearDraw s1 = Inr s2"
    using sub1 by (simp add: clearDraw_char s2_def)
  have same: "cells s2 r = cells s r" for r
  proof (cases "cells s r")
    case None
    then show ?thesis
      by (simp add: s2_def s1_def split: option.splits)
  next
    case (Some c0)
    then have n: "scratchValue c0 = None"
      using assms(3) by blast
    have "c0\<lparr>scratchValue := None\<rparr> = c0"
      using n by simp
    moreover have "r \<in> set (scratchCells s1)" if "lastWritten ops r = Some w" for w
      using that lastWritten_None [of ops r] by (auto simp: s1_def)
    ultimately show ?thesis
      using Some by (auto simp: s2_def s1_def cleared_def split: option.splits)
  qed
  then have "cells s2 = cells s"
    by (simp add: fun_eq_iff)
  then have "getDrawValue k s2 c = getDrawValue k s c" for c
    by (rule getDrawValue_cong)
  with d c same show ?thesis by auto
qed

text \<open>
  Around a lone special cell at \<open>(2, 2)\<close>: two writes to it and one to the empty cell
  \<open>(5, 5)\<close>, then \<^verbatim>\<open>clearDraw\<close>; both cells display what they displayed before.
\<close>

theorem drawValues_clearDraw_roundtrip_witness:
  "drawValueAt ex_k (Vector 2 2)
     (then_do (drawValues ex_lone [(Vector 2 2, Some ''a''), (Vector 5 5, Some ''X''),
        (Vector 2 2, None)]) clearDraw) = Inr (Some ''+'') \<and>
   drawValueAt ex_k (Vector 5 5)
     (then_do (drawValues ex_lone [(Vector 2 2, Some ''a''), (Vector 5 5, Some ''X''),
        (Vector 2 2, None)]) clearDraw) = Inr None"
proof -
  have a: "set (scratchCells ex_lone) \<subseteq> dom (cells ex_lone)"
    by (simp add: ex_lone_def State_new_def)
  have b: "fst ` set [(Vector 2 2, Some ''a''), (Vector 5 5, Some ''X''),
           (Vector 2 2, None :: string option)] \<subseteq> dom (cells ex_lone)"
    by (simp add: ex_lone_def State_new_def ex_k_def dom_def)
  have c: "\<forall>r c. cells ex_lone r = Some c \<longrightarrow> scratchValue c = None"
    by (simp add: ex_lone_def State_new_def ex_k_def ex_plus_def Cell_new_def)
  have g1: "getDrawValue ex_k ex_lone (Vector 2 2) = Inr (Some ''+'')"
  proof -
    have cell: "cells ex_lone (Vector 2 2) = Some ex_plus"
      by (simp add: ex_lone_def)
    show ?thesis
      by (simp add: getDrawValue_def getCell_def cell ex_lone_context ex_plus_def ex_k_def)
  qed
  have g2: "getDrawValue ex_k ex_lone (Vector 5 5) = Inr None"
    by (simp add: getDrawValue_def getCell_def ex_lone_def State_new_def ex_k_def Cell_new_def)
  show ?thesis
    using drawValues_clearDraw_roundtrip [OF a b c, of ex_k] g1 g2
    by (auto simp: then_do_def drawValueAt_def)
qed

text \<open>
  Claim C10. Where \<^verbatim>\<open>commitDraw\<close> returns, which it does when the scratch references are
  cells of the grid, a second \<^verbatim>\<open>commitDraw\<close> right after it returns the very state the
  first one left: no committed value and no scratch value changes.
\<close>

theorem commitDraw_idempotent:
  assumes "set (scratchCells s) \<subseteq> dom (cells s)"
  shows "\<exists>s1. commitDraw s = Inr s1 \<and> commitDraw s1 = Inr s1"
proof -
  obtain s1 where "commitDraw s = Inr s1"
    using assms by (simp add: commitDraw_char)
  then show ?thesis
    using commitDraw_twice by blast
qed

lemma ex_done_reached: "commitDraw ex_stroke = Inr ex_done"
  by (simp add: commitDraw_def ex_stroke_def ex_done_def getRawValue_def Let_def)

text \<open>After a freeform stroke over two cells, the second commit changes nothing.\<close>

theorem commitDraw_idempotent_witness:
  "commitDraw ex_stroke = Inr ex_done \<and> commitDraw ex_done = Inr ex_done"
proof -
  have sub: "set (scratchCells ex_stroke) \<subseteq> dom (cells ex_stroke)"
    by (simp add: ex_stroke_def)
  show ?thesis
    using commitDraw_idempotent [OF sub] ex_done_reached by auto
qed

section \<open>Malformed gestures\<close>

lemma ex_stroke_reached:
  "then_do (DrawFreeform_start ex_freeform ex_x (Vector 1 1))
     (\<lambda>s. DrawFreeform_move ex_freeform s (Vector 2 1)) = Inr ex_stroke"
  by (simp add: then_do_def DrawFreeform_start_def DrawFreeform_move_def drawValue_def
      getCell_def ex_freeform_def ex_x_def ex_stroke_def State_new_def ex_k_def Cell_new_def)

text \<open>
  Claim C8 says that every tool takes a malformed gesture as a no-op that mutates no cell.
  \<^verbatim>\<open>DrawFreeform\<close> keeps no gesture state: its \<^verbatim>\<open>move\<close> with no \<^verbatim>\<open>start\<close> before it, on
  a new grid, writes the scratch value of the cell at the position.
\<close>

theorem DrawFreeform_move_without_start_counterexample:
  "scratchAt (Vector 1 1) (Inr (State_new ex_k)) = Inr (Some None) \<and>
   scratchAt (Vector 1 1) (DrawFreeform_move ex_freeform (State_new ex_k) (Vector 1 1))
     = Inr (Some (Some ''X''))"
  by (simp add: scratchAt_def DrawFreeform_move_def drawValue_def getCell_def State_new_def
      ex_k_def ex_freeform_def Cell_new_def)

text \<open>
  Claim C8, amended. For the box tool and for the freeform tool, an \<^verbatim>\<open>end\<close> that follows
  an \<^verbatim>\<open>end\<close> which returned also returns, with the state unchanged. A freeform \<^verbatim>\<open>move\<close>
  at a coordinate of the grid returns whether or not a \<^verbatim>\<open>start\<close> came before, and is
  no no-op: it pushes the cell onto the scratch set and writes the tool's value as its
  scratch value. (What the box tool's \<^verbatim>\<open>move\<close> does before any \<^verbatim>\<open>start\<close> is decided by
  \<^verbatim>\<open>drawLine\<close> and is left out.)
\<close>

theorem tools_duplicate_end_and_freeform_move:
  "(DrawBox_end b s = Inr s1 \<longrightarrow> DrawBox_end b s1 = Inr s1) \<and>
   (DrawFreeform_end t s = Inr s1 \<longrightarrow> DrawFreeform_end t s1 = Inr s1) \<and>
   (cells s p = Some c \<longrightarrow>
      DrawFreeform_move t s p =
        Inr (s\<lparr>scratchCells := scratchCells s @ [p],
               cells := (cells s)(p \<mapsto> c\<lparr>scratchValue := tool_value t\<rparr>)\<rparr>))"
  by (auto simp: DrawBox_end_def DrawFreeform_end_def DrawFreeform_move_def commitDraw_twice
      drawValue_def getCell_def)

theorem tools_duplicate_end_and_freeform_move_witness:
  "DrawBox_end DrawBox_new ex_done = Inr ex_done \<and>
   DrawFreeform_end ex_freeform ex_done = Inr ex_done \<and>
   scratchAt (Vector 1 1) (DrawFreeform_move ex_freeform ex_stroke (Vector 1 1))
     = Inr (Some (Some ''X''))"
proof -
  note e = ex_done_reached
  have c: "cells ex_stroke (Vector 1 1)
             = Some \<lparr>cell_value = Some ''X'', scratchValue = Some ''X'', special = False\<rparr>"
    by (simp add: ex_stroke_def)
  show ?thesis
    using tools_duplicate_end_and_freeform_move
      [of DrawBox_new ex_stroke ex_done ex_freeform "Vector 1 1"
          "\<lparr>cell_value = Some ''X'', scratchValue = Some ''X'', special = False\<rparr>"]
    by (simp add: e c DrawBox_end_def DrawFreeform_end_def scratchAt_def ex_freeform_def)
qed

section \<open>Coordinate transforms\<close>

lemma round_minus_half: "round (z - 1 / 2 :: rat) = \<lfloor>z\<rfloor>"
  by (simp add: round_def)

lemma round_plus_half: "round (z + 1 / 2 :: rat) = \<lfloor>z\<rfloor> + 1"
proof -
  have "z + 1 / 2 + 1 / 2 = z + 1" by simp
  then show ?thesis by (simp add: round_def)
qed

lemma floor_rat_numeral: "\<lfloor>numeral a / numeral b :: rat\<rfloor> = numeral a div numeral b"
  using floor_divide_of_int_eq [of "numeral a" "numeral b", where ?'a = rat] by simp

lemma floor_rat_neg_numeral:
  "\<lfloor>- (numeral a / numeral b) :: rat\<rfloor> = - numeral a div numeral b"
  using floor_divide_of_int_eq [of "- numeral a" "numeral b", where ?'a = rat] by simp

lemma State_new_covers:
  assumes "MAX_GRID_WIDTH k \<le> MAX_GRID_SIZE k" and "MAX_GRID_HEIGHT k \<le> MAX_GRID_SIZE k"
  shows "\<forall>v. 0 \<le> vx v \<and> vx v < MAX_GRID_WIDTH k \<and> 0 \<le> vy v \<and> vy v < MAX_GRID_HEIGHT k
           \<longrightarrow> v \<in> dom (cells (State_new k))"
  using assms by (auto simp: State_new_def dom_def)

text \<open>
  Claim C5. Let the cell sizes be nonzero, the grid of the view at least three cells wide
  and high, and let the state hold a cell at every index of that grid. Then for every
  plane-space vector \<^const>\<open>frameToCell\<close> returns a cell index whose components lie in
  \<open>[1, MAX_GRID_WIDTH - 2]\<close> and \<open>[1, MAX_GRID_HEIGHT - 2]\<close>, and \<^const>\<open>getContext\<close> at
  that index finds its four neighbours in the grid: it returns a context and does not
  throw.
\<close>

theorem frameToCell_in_bounds:
  assumes "CHAR_PIXELS_H k \<noteq> 0" and "CHAR_PIXELS_V k \<noteq> 0"
    and "3 \<le> MAX_GRID_WIDTH k" and "3 \<le> MAX_GRID_HEIGHT k"
    and "\<forall>v. 0 \<le> vx v \<and> vx v < MAX_GRID_WIDTH k \<and> 0 \<le> vy v \<and> vy v < MAX_GRID_HEIGHT k
           \<longrightarrow> v \<in> dom (cells s)"
  shows "\<exists>c. frameToCell k q = Some c \<and>
           1 \<le> vx c \<and> vx c \<le> MAX_GRID_WIDTH k - 2 \<and>
           1 \<le> vy c \<and> vy c \<le> MAX_GRID_HEIGHT k - 2 \<and>
           (\<exists>context. getContext s c = Inr context)"
proof -
  define c where "c = Vector
        (min (max 1 (round ((vx q - CHAR_PIXELS_H k / 2) / CHAR_PIXELS_H k)))
         (MAX_GRID_WIDTH k - 2))
        (min (max 1 (round ((vy q + CHAR_PIXELS_V k / 2) / CHAR_PIXELS_V k)))
         (MAX_GRID_HEIGHT k - 2))"
  have f: "frameToCell k q = Some c"
    using assms(1,2) by (simp add: frameToCell_def c_def)
  have bx: "1 \<le> vx c" "vx c \<le> MAX_GRID_WIDTH k - 2"
    using assms(3) by (simp_all add: c_def)
  have bv: "1 \<le> vy c" "vy c \<le> MAX_GRID_HEIGHT k - 2"
    using assms(4) by (simp_all add: c_def)
  have inb: "\<exists>cell. cells s (Vector x y) = Some cell"
    if "0 \<le> x" "x < MAX_GRID_WIDTH k" "0 \<le> y" "y < MAX_GRID_HEIGHT k" for x y
  proof -
    have "Vector x y \<in> dom (cells s)"
      using assms(5) that by simp
    then show ?thesis by (auto simp: dom_def)
  qed
  obtain cl where cl: "cells s (Vector (vx c - 1) (vy c)) = Some cl"
    using inb [of "vx c - 1" "vy c"] bx bv by auto
  obtain cr where cr: "cells s (Vector (vx c + 1) (vy c)) = Some cr"
    using inb [of "vx c + 1" "vy c"] bx bv by auto
  obtain cu where cu: "cells s (Vector (vx c) (vy c - 1)) = Some cu"
    using inb [of "vx c" "vy c - 1"] bx bv by auto
  obtain cd where cd: "cells s (Vector (vx c) (vy c + 1)) = Some cd"
    using inb [of "vx c" "vy c + 1"] bx bv by auto
  have "\<exists>context. getContext s c = Inr context"
    using getContext_neighbours [OF cl cr cu cd] by blast
  with f bx bv show ?thesis by blast
qed

text \<open>
  A point far to the upper left of the plane in one axis and far below it in the other
  lands on the corner cell \<open>(1, MAX_GRID_HEIGHT - 2)\<close>.
\<close>

theorem frameToCell_in_bounds_witness:
  "frameToCell ex_k (Vector (- 1000000) 1000000) = Some (Vector 1 598)"
proof -
  have h: "CHAR_PIXELS_H ex_k \<noteq> 0" and v: "CHAR_PIXELS_V ex_k \<noteq> 0"
    and w: "3 \<le> MAX_GRID_WIDTH ex_k" and ht: "3 \<le> MAX_GRID_HEIGHT ex_k"
    by (simp_all add: ex_k_def)
  have g: "\<forall>v. 0 \<le> vx v \<and> vx v < MAX_GRID_WIDTH ex_k \<and>
               0 \<le> vy v \<and> vy v < MAX_GRID_HEIGHT ex_k
             \<longrightarrow> v \<in> dom (cells (State_new ex_k))"
    by (rule State_new_covers) (simp_all add: ex_k_def)
  have e: "frameToCell ex_k (Vector (- 1000000) 1000000) = Some (Vector 1 598)"
    by (simp add: ex_k_def frameToCell_def round_def floor_rat_numeral floor_rat_neg_numeral)
  show ?thesis
    using frameToCell_in_bounds [OF h v w ht g, of "Vector (- 1000000) 1000000"] e
    by simp
qed

text \<open>A pointer position goes through \<^const>\<open>screenToFrame\<close> first; the bounds carry over.\<close>

lemma screenToCell_in_bounds:
  assumes "zoom w \<noteq> 0" and "CHAR_PIXELS_H k \<noteq> 0" and "CHAR_PIXELS_V k \<noteq> 0"
    and "3 \<le> MAX_GRID_WIDTH k" and "3 \<le> MAX_GRID_HEIGHT k"
  shows "\<exists>c. screenToCell k w p = Some c \<and>
           1 \<le> vx c \<and> vx c \<le> MAX_GRID_WIDTH k - 2 \<and>
           1 \<le> vy c \<and> vy c \<le> MAX_GRID_HEIGHT k - 2"
  using assms by (simp add: screenToCell_def screenToFrame_def frameToCell_def)

text \<open>
  Claim C6 says that each axis is divided by the cell size, rounded to the nearest integer
  and clamped, by the same rule for both axes. \<^const>\<open>frameToCell\<close> first takes half a
  cell width off \<open>x\<close> and adds half a cell height to \<open>y\<close>. With cells of 9 by 17 pixels
  the plane point \<open>(50, 85)\<close> is in cell \<open>(5, 6)\<close>, where the rule of the claim gives
  \<open>(6, 5)\<close>.
\<close>

theorem frameToCell_not_spec_counterexample:
  "frameToCell ex_k (Vector 50 85) = Some (Vector 5 6) \<and>
   planeToCell_spec ex_k (Vector 50 85) = Vector 6 5"
  by (simp add: frameToCell_def planeToCell_spec_def ex_k_def round_def floor_rat_numeral)

text \<open>
  The difference does not depend on the sample cell size: for every nonzero cell size the
  point at \<open>2.6\<close> cell widths is in column \<open>2\<close>, where dividing and rounding gives \<open>3\<close>.
\<close>

lemma frameToCell_differs_for_every_cell_size:
  assumes "CHAR_PIXELS_H k \<noteq> 0" and "CHAR_PIXELS_V k \<noteq> 0" and "5 \<le> MAX_GRID_WIDTH k"
  shows "map_option vx (frameToCell k (Vector (13 * CHAR_PIXELS_H k / 5) y)) = Some 2 \<and>
         vx (planeToCell_spec k (Vector (13 * CHAR_PIXELS_H k / 5) y)) = 3"
proof -
  have a: "(13 * CHAR_PIXELS_H k / 5 - CHAR_PIXELS_H k / 2) / CHAR_PIXELS_H k = 21 / 10"
    using assms(1) by (simp add: field_simps)
  have b: "13 * CHAR_PIXELS_H k / 5 / CHAR_PIXELS_H k = 13 / 5"
    using assms(1) by simp
  have r: "round (21 / 10 :: rat) = 2" "round (13 / 5 :: rat) = 3"
    by (simp_all add: round_def floor_rat_numeral)
  show ?thesis
    using assms by (simp add: frameToCell_def planeToCell_spec_def a b r)
qed

text \<open>
  Claim C6, amended. For nonzero cell sizes, \<^const>\<open>frameToCell\<close> divides each axis by the
  cell size, shifts the quotient by half a cell (down by a half on \<open>x\<close>, up by a half on
  \<open>y\<close>), rounds to the nearest integer and clamps to \<open>[1, MAX_GRID_WIDTH - 2]\<close> and
  \<open>[1, MAX_GRID_HEIGHT - 2]\<close>. The two axes are not treated alike: before clamping, the
  \<open>x\<close> index is the quotient rounded down and the \<open>y\<close> index is the quotient rounded
  down plus one.
\<close>

theorem frameToCell_floor:
  assumes "CHAR_PIXELS_H k \<noteq> 0" and "CHAR_PIXELS_V k \<noteq> 0"
  shows "frameToCell k q = Some (Vector
           (min (max 1 (round (vx q / CHAR_PIXELS_H k - 1 / 2))) (MAX_GRID_WIDTH k - 2))
           (min (max 1 (round (vy q / CHAR_PIXELS_V k + 1 / 2))) (MAX_GRID_HEIGHT k - 2))) \<and>
         round (vx q / CHAR_PIXELS_H k - 1 / 2) = \<lfloor>vx q / CHAR_PIXELS_H k\<rfloor> \<and>
         round (vy q / CHAR_PIXELS_V k + 1 / 2) = \<lfloor>vy q / CHAR_PIXELS_V k\<rfloor> + 1"
proof -
  have x: "(vx q - CHAR_PIXELS_H k / 2) / CHAR_PIXELS_H k = vx q / CHAR_PIXELS_H k - 1 / 2"
    using assms(1) by (simp add: diff_divide_distrib)
  have y: "(vy q + CHAR_PIXELS_V k / 2) / CHAR_PIXELS_V k = vy q / CHAR_PIXELS_V k + 1 / 2"
    using assms(2) by (simp add: add_divide_distrib)
  show ?thesis
    using assms unfolding frameToCell_def x y round_minus_half round_plus_half by simp
qed

theorem frameToCell_floor_witness:
  "frameToCell ex_k (Vector 50 85) = Some (Vector 5 6)"
proof -
  have h: "CHAR_PIXELS_H ex_k \<noteq> 0" and v: "CHAR_PIXELS_V ex_k \<noteq> 0"
    by (simp_all add: ex_k_def)
  show ?thesis
    using frameToCell_floor [OF h v, of "Vector 50 85"]
    by (simp add: ex_k_def floor_rat_numeral)
qed

text \<open>
  Claim C7. Over the rationals and for a nonzero zoom, whatever the offset and the canvas
  size, \<^const>\<open>frameToScreen\<close> after \<^const>\<open>screenToFrame\<close> gives back the pointer-space
  vector it started from.
\<close>

theorem frameToScreen_screenToFrame:
  assumes "zoom w \<noteq> 0"
  shows "map_option (frameToScreen w) (screenToFrame w p) = Some p"
  using assms by (simp add: screenToFrame_def frameToScreen_def)

theorem frameToScreen_screenToFrame_witness:
  "screenToFrame ex_view (Vector 100 50) = Some (Vector 8850 4975) \<and>
   frameToScreen ex_view (Vector 8850 4975) = Vector 100 50"
proof -
  have z: "zoom ex_view \<noteq> 0"
    by (simp add: ex_view_def)
  have f: "screenToFrame ex_view (Vector 100 50) = Some (Vector 8850 4975)"
    by (simp add: ex_view_def screenToFrame_def)
  show ?thesis
    using frameToScreen_screenToFrame [OF z, of "Vector 100 50"] f
    by simp
qed

end
